theory Spec2Isabelle
  imports Complex_Main "HOL-Library.Sublist"
begin

section \<open>Strings\<close>

text \<open>
  File names and paths are \<^typ>\<open>string\<close>, a list of characters. The three string
  tests the server uses all look for ASCII patterns (\<open>.pdf\<close>, \<open>/\<close>, \<open>..\<close>).
\<close>

definition endsWith :: "string \<Rightarrow> string \<Rightarrow> bool" where
  \<comment> \<open>\<open>s.endsWith(pat)\<close>\<close>
  "endsWith s pat = (length pat \<le> length s \<and> drop (length s - length pat) s = pat)"

fun includes_str :: "string \<Rightarrow> string \<Rightarrow> bool" where
  \<comment> \<open>\<open>s.includes(pat)\<close>: \<open>pat\<close> occurs somewhere in \<open>s\<close>\<close>
  "includes_str [] pat = (pat = [])"
| "includes_str (c # cs) pat = (prefix pat (c # cs) \<or> includes_str cs pat)"

fun split_on :: "char \<Rightarrow> string \<Rightarrow> string list" where
  \<comment> \<open>\<open>s.split(sep)\<close> for a one-character separator; never the empty list\<close>
  "split_on sep [] = [[]]"
| "split_on sep (c # cs) =
     (let r = split_on sep cs in if c = sep then [] # r else (c # hd r) # tl r)"

fun joinWith :: "string \<Rightarrow> string list \<Rightarrow> string" where
  \<comment> \<open>\<open>xs.join(sep)\<close>\<close>
  "joinWith sep [] = []"
| "joinWith sep [x] = x"
| "joinWith sep (x # y # ys) = x @ sep @ joinWith sep (y # ys)"

section \<open>The path module (POSIX)\<close>

text \<open>
  \<open>path.join\<close> belongs to the runtime. It is given here by segments: the joined text is
  cut at every \<open>/\<close>, empty and \<open>.\<close> segments are dropped, a \<open>..\<close> segment removes the
  segment before it (or is kept, for a relative path, when there is none to remove), and
  the remaining segments are put back together.
\<close>

definition normalizeSegment :: "bool \<Rightarrow> string list \<Rightarrow> string \<Rightarrow> string list" where
  "normalizeSegment allowAboveRoot res seg =
     (if seg = [] \<or> seg = ''.'' then res
      else if seg = ''..'' then
        (if res \<noteq> [] \<and> last res \<noteq> ''..'' then butlast res
         else if allowAboveRoot then res @ [''..''] else res)
      else res @ [seg])"

definition normalizeSegments :: "bool \<Rightarrow> string \<Rightarrow> string list" where
  "normalizeSegments allowAboveRoot p =
     foldl (normalizeSegment allowAboveRoot) [] (split_on CHR ''/'' p)"

definition normalizeString :: "string \<Rightarrow> bool \<Rightarrow> string" where
  "normalizeString p allowAboveRoot = joinWith ''/'' (normalizeSegments allowAboveRoot p)"

definition isAbsolute :: "string \<Rightarrow> bool" where
  "isAbsolute p = (p \<noteq> [] \<and> hd p = CHR ''/'')"

definition normalize :: "string \<Rightarrow> string" where
  "normalize p =
     (if p = [] then ''.''
      else
        let trailingSeparator = (last p = CHR ''/'');
            q = normalizeString p (\<not> isAbsolute p)
        in if q = [] then
             (if isAbsolute p then ''/'' else if trailingSeparator then ''./'' else ''.'')
           else (if isAbsolute p then ''/'' else []) @ q
                  @ (if trailingSeparator then ''/'' else []))"

definition join :: "string list \<Rightarrow> string" where
  "join args =
     (let joined = joinWith ''/'' (filter (\<lambda>arg. arg \<noteq> []) args)
      in if joined = [] then ''.'' else normalize joined)"

section \<open>The world outside the server\<close>

datatype errno = ENOENT | EACCES | ENOTDIR | EIO

record stats =
  mtimeMs :: real

type_synonym ws = nat

record file_entry =
  name :: string
  path :: string
  modified :: real

datatype message =
    PdfsUpdated "file_entry list"
  | PdfChanged string

text \<open>
  Everything the server reads from its host: the configured directory, the file system
  calls with their failures as \<^const>\<open>Inl\<close>, \<open>decodeURIComponent\<close> (\<^const>\<open>None\<close>
  when it throws), the collation behind \<open>String.prototype.localeCompare\<close>, and the
  number \<open>ws.send\<close> returns for a connection. The server's sockets are the runtime's
  \<open>ServerWebSocket\<close>, whose \<open>send\<close> reports its outcome by that number: the bytes sent
  when positive, \<open>-1\<close> for a message queued under backpressure, \<open>0\<close> for a message
  dropped, which is what a send on a closed connection gives.
\<close>

record world =
  PDF_DIR :: string
  readdirSync :: "string \<Rightarrow> errno + string list"
  statSync :: "string \<Rightarrow> errno + stats"
  file_bytes :: "string \<Rightarrow> nat list option"
  decodeURIComponent :: "string \<Rightarrow> string option"
  localeCompare :: "string \<Rightarrow> string \<Rightarrow> int"
  send_returns :: "ws \<Rightarrow> message \<Rightarrow> int"

section \<open>Directory scanner\<close>

fun map_throwing :: "('a \<Rightarrow> 'e + 'b) \<Rightarrow> 'a list \<Rightarrow> 'e + 'b list" where
  \<comment> \<open>\<open>Array.prototype.map\<close> with a callback that may throw: the first throw ends it\<close>
  "map_throwing f [] = Inr []"
| "map_throwing f (x # xs) =
     (case f x of
        Inl e \<Rightarrow> Inl e
      | Inr y \<Rightarrow> (case map_throwing f xs of Inl e \<Rightarrow> Inl e | Inr ys \<Rightarrow> Inr (y # ys)))"

fun insert_by :: "('a \<Rightarrow> 'a \<Rightarrow> int) \<Rightarrow> 'a \<Rightarrow> 'a list \<Rightarrow> 'a list" where
  "insert_by cmp x [] = [x]"
| "insert_by cmp x (y # ys) =
     (if cmp x y \<le> 0 then x # y # ys else y # insert_by cmp x ys)"

definition sort_by :: "('a \<Rightarrow> 'a \<Rightarrow> int) \<Rightarrow> 'a list \<Rightarrow> 'a list" where
  \<comment> \<open>\<open>Array.prototype.sort(cmp)\<close>: stable, ascending by the comparator\<close>
  "sort_by cmp xs = foldr (insert_by cmp) xs []"

definition pdf_entry :: "world \<Rightarrow> string \<Rightarrow> errno + file_entry" where
  \<comment> \<open>the callback given to \<open>map\<close> in \<open>listPdfs\<close>\<close>
  "pdf_entry w n =
     (let fullPath = join [PDF_DIR w, n]
      in (case statSync w fullPath of
            Inl e \<Rightarrow> Inl e
          | Inr st \<Rightarrow> Inr \<lparr>name = n, path = fullPath, modified = mtimeMs st\<rparr>))"

definition listPdfs_try :: "world \<Rightarrow> errno + file_entry list" where
  \<comment> \<open>the body of the \<open>try\<close> block\<close>
  "listPdfs_try w =
     (case readdirSync w (PDF_DIR w) of
        Inl e \<Rightarrow> Inl e
      | Inr files \<Rightarrow>
          (case map_throwing (pdf_entry w) (filter (\<lambda>f. endsWith f ''.pdf'') files) of
             Inl e \<Rightarrow> Inl e
           | Inr entries \<Rightarrow>
               Inr (sort_by (\<lambda>a b. localeCompare w (name a) (name b)) entries)))"

definition listPdfs :: "world \<Rightarrow> file_entry list" where
  \<comment> \<open>\<open>try { ... } catch { return []; }\<close>\<close>
  "listPdfs w = (case listPdfs_try w of Inl e \<Rightarrow> [] | Inr entries \<Rightarrow> entries)"

section \<open>Observers and broadcasts\<close>

text \<open>
  \<open>clients\<close> is a \<open>Set\<close>: no element twice, visited in the order of insertion. \<open>sent\<close>
  records every call of \<open>ws.send\<close> with the number it returned, and \<open>console\<close> the lines
  written by \<open>console.log\<close>. A message is an object before \<open>JSON.stringify\<close>.
\<close>

record server =
  clients :: "ws list"
  sent :: "(ws \<times> message \<times> int) list"
  console :: "string list"

definition websocket_open :: "ws \<Rightarrow> server \<Rightarrow> server" where
  \<comment> \<open>\<open>clients.add(ws)\<close>\<close>
  "websocket_open c s =
     s\<lparr>clients := (if c \<in> set (clients s) then clients s else clients s @ [c])\<rparr>"

definition websocket_close :: "ws \<Rightarrow> server \<Rightarrow> server" where
  \<comment> \<open>\<open>clients.delete(ws)\<close>\<close>
  "websocket_close c s = s\<lparr>clients := removeAll c (clients s)\<rparr>"

definition ws_send :: "world \<Rightarrow> ws \<Rightarrow> message \<Rightarrow> server \<Rightarrow> server" where
  "ws_send w c msg s = s\<lparr>sent := sent s @ [(c, msg, send_returns w c msg)]\<rparr>"

definition broadcast :: "world \<Rightarrow> message \<Rightarrow> server \<Rightarrow> server" where
  \<comment> \<open>\<open>clients.forEach(ws => ws.send(msg))\<close>; the number returned by \<open>send\<close> is not used\<close>
  "broadcast w msg s = foldl (\<lambda>s' c. ws_send w c msg s') s (clients s)"

definition broadcastPdfs :: "world \<Rightarrow> server \<Rightarrow> server" where
  "broadcastPdfs w s = (let files = listPdfs w; msg = PdfsUpdated files in broadcast w msg s)"

definition watch_callback :: "world \<Rightarrow> string \<Rightarrow> string option \<Rightarrow> server \<Rightarrow> server" where
  \<comment> \<open>the callback given to \<open>watch\<close>; \<open>filename\<close> is \<^const>\<open>None\<close> when it is null\<close>
  "watch_callback w event filename s =
     (case filename of
        None \<Rightarrow> s
      | Some f \<Rightarrow>
          if endsWith f ''.pdf'' then
            broadcast w (PdfChanged f)
              (broadcastPdfs w
                (s\<lparr>console := console s @ [''[watch] '' @ event @ '': '' @ f]\<rparr>))
          else s)"

definition sent_since :: "server \<Rightarrow> server \<Rightarrow> (ws \<times> message \<times> int) list" where
  \<comment> \<open>the calls of \<open>send\<close> made between state \<open>s\<close> and the later state \<open>s'\<close>\<close>
  "sent_since s s' = drop (length (sent s)) (sent s')"

definition sent_to :: "ws \<Rightarrow> (ws \<times> message \<times> int) list \<Rightarrow> message list" where
  "sent_to c evs = map (\<lambda>e. fst (snd e)) (filter (\<lambda>e. fst e = c) evs)"

definition delivered_to :: "ws \<Rightarrow> (ws \<times> message \<times> int) list \<Rightarrow> message list" where
  \<comment> \<open>the messages the transport took for \<open>c\<close>: those whose \<open>send\<close> did not return 0\<close>
  "delivered_to c evs =
     map (\<lambda>e. fst (snd e)) (filter (\<lambda>e. fst e = c \<and> snd (snd e) \<noteq> 0) evs)"

section \<open>File access: the route \<open>/api/pdf/:name\<close>\<close>

datatype js_error = URIError

datatype response_body = Text string | FileBody "nat list"

record response =
  status :: nat
  body :: response_body
  headers :: "(string \<times> string) list"

definition valid_name :: "string \<Rightarrow> bool" where
  \<comment> \<open>the negation of the handler's rejection test\<close>
  "valid_name nm =
     (\<not> (\<not> endsWith nm ''.pdf'' \<or> includes_str nm ''/'' \<or> includes_str nm ''..''))"

definition api_pdf_name :: "world \<Rightarrow> string \<Rightarrow> server \<Rightarrow> (js_error + response) \<times> server" where
  "api_pdf_name w param s =
     (case decodeURIComponent w param of
        None \<Rightarrow> (Inl URIError, s)
      | Some nm \<Rightarrow>
          if \<not> endsWith nm ''.pdf'' \<or> includes_str nm ''/'' \<or> includes_str nm ''..'' then
            (Inr \<lparr>status = 400, body = Text ''Invalid file'', headers = []\<rparr>,
             s\<lparr>console := console s @ [''[serve] Rejected invalid file request: '' @ nm]\<rparr>)
          else
            let filePath = join [PDF_DIR w, nm]
            in (case file_bytes w filePath of
                  None \<Rightarrow>
                    (Inr \<lparr>status = 404, body = Text ''Not found'', headers = []\<rparr>,
                     s\<lparr>console := console s @ [''[serve] File not found: '' @ nm]\<rparr>)
                | Some bytes \<Rightarrow>
                    (Inr \<lparr>status = 200, body = FileBody bytes,
                          headers = [(''Content-Type'', ''application/pdf'')]\<rparr>,
                     s\<lparr>console := console s @ [''[serve] Serving PDF to client: '' @ nm]\<rparr>)))"

section \<open>Notions used to state the properties\<close>

definition entry_of :: "world \<Rightarrow> string \<Rightarrow> file_entry" where
  \<comment> \<open>the descriptor \<open>listPdfs\<close> builds for a name whose \<open>stat\<close> succeeds\<close>
  "entry_of w n = \<lparr>name = n, path = join [PDF_DIR w, n],
      modified = mtimeMs (projr (statSync w (join [PDF_DIR w, n])))\<rparr>"

definition path_segments :: "string \<Rightarrow> string list" where
  \<comment> \<open>the segments a path denotes, \<open>.\<close> and \<open>..\<close> resolved\<close>
  "path_segments p = normalizeSegments (\<not> isAbsolute p) p"

definition inside :: "string \<Rightarrow> string \<Rightarrow> bool" where
  \<comment> \<open>\<open>p\<close> names a place strictly below the directory \<open>dir\<close>\<close>
  "inside dir p =
     (isAbsolute p = isAbsolute dir \<and>
      strict_prefix (path_segments dir) (path_segments p) \<and>
      ''..'' \<notin> set (drop (length (path_segments dir)) (path_segments p)))"

definition normalized :: "bool \<Rightarrow> string list \<Rightarrow> bool" where
  \<comment> \<open>segments in normal form: none empty or \<open>.\<close>, none with a \<open>/\<close>, every \<open>..\<close> before
      every other segment, and no \<open>..\<close> at all unless the path may climb (\<open>up\<close>)\<close>
  "normalized up segs =
     ((\<forall>s\<in>set segs. s \<noteq> [] \<and> s \<noteq> ''.'' \<and> CHR ''/'' \<notin> set s) \<and>
      sorted_wrt (\<lambda>a b. b = ''..'' \<longrightarrow> a = ''..'') segs \<and>
      (\<not> up \<longrightarrow> ''..'' \<notin> set segs))"

definition consistent_on :: "('a \<Rightarrow> 'a \<Rightarrow> int) \<Rightarrow> 'a set \<Rightarrow> bool" where
  \<comment> \<open>what \<open>sort\<close> needs of its comparator on the values it sorts: total and transitive\<close>
  "consistent_on cmp A =
     ((\<forall>a\<in>A. \<forall>b\<in>A. cmp a b \<le> 0 \<or> cmp b a \<le> 0) \<and>
      (\<forall>a\<in>A. \<forall>b\<in>A. \<forall>c\<in>A. cmp a b \<le> 0 \<and> cmp b c \<le> 0 \<longrightarrow> cmp a c \<le> 0))"

fun code_unit_less :: "string \<Rightarrow> string \<Rightarrow> bool" where
  \<comment> \<open>case-sensitive lexicographic order: by character code, the first difference decides\<close>
  "code_unit_less [] [] = False"
| "code_unit_less [] (y # ys) = True"
| "code_unit_less (x # xs) [] = False"
| "code_unit_less (x # xs) (y # ys) =
     ((of_char x :: nat) < of_char y \<or> (x = y \<and> code_unit_less xs ys))"

section \<open>A collation for ASCII names\<close>

text \<open>
  The runtime's \<open>localeCompare\<close> is ICU collation. On names made of ASCII letters, digits
  and \<open>.\<close> its default order compares the names letter by letter without regard to case
  first (punctuation before digits before letters), and only between names equal so far
  lets case decide, lower case first. \<^term>\<open>localeCompare_ascii\<close> is that order; it is
  used for concrete names of this kind only, and the general statements take the
  collation from the world. On other punctuation it goes by character code and is not the
  runtime's order (ICU puts \<open>_\<close> before \<open>-\<close> and \<open>.\<close> before \<open>+\<close>).
\<close>

definition is_lower :: "char \<Rightarrow> bool" where
  "is_lower c = (97 \<le> (of_char c :: nat) \<and> (of_char c :: nat) \<le> 122)"

definition is_upper :: "char \<Rightarrow> bool" where
  "is_upper c = (65 \<le> (of_char c :: nat) \<and> (of_char c :: nat) \<le> 90)"

definition is_digit :: "char \<Rightarrow> bool" where
  "is_digit c = (48 \<le> (of_char c :: nat) \<and> (of_char c :: nat) \<le> 57)"

definition primary_weight :: "char \<Rightarrow> nat" where
  "primary_weight c =
     (if is_lower c then 1000 + (of_char c - 97)
      else if is_upper c then 1000 + (of_char c - 65)
      else if is_digit c then 500 + (of_char c - 48)
      else of_char c)"

definition tertiary_weight :: "char \<Rightarrow> nat" where
  "tertiary_weight c = (if is_upper c then 1 else 0)"

fun compare_weights :: "nat list \<Rightarrow> nat list \<Rightarrow> int" where
  "compare_weights [] [] = 0"
| "compare_weights [] (y # ys) = - 1"
| "compare_weights (x # xs) [] = 1"
| "compare_weights (x # xs) (y # ys) =
     (if x < y then - 1 else if y < x then 1 else compare_weights xs ys)"

definition localeCompare_ascii :: "string \<Rightarrow> string \<Rightarrow> int" where
  "localeCompare_ascii a b =
     (let p = compare_weights (map primary_weight a) (map primary_weight b)
      in if p \<noteq> 0 then p
         else compare_weights (map tertiary_weight a) (map tertiary_weight b))"

section \<open>Percent-decoding\<close>

text \<open>
  \<open>decodeURIComponent\<close> belongs to the runtime. With a name held as the bytes of its UTF-8
  form, it replaces every escape \<open>%XX\<close> by the byte it writes, and throws \<open>URIError\<close>
  (\<^const>\<open>None\<close> here) when a \<open>%\<close> is not followed by two hexadecimal digits or when the
  escaped bytes from 128 up do not form well-formed UTF-8, each byte of a sequence written
  as an escape. A name without \<open>%\<close> decodes to itself.
\<close>

definition hex_digit :: "char \<Rightarrow> nat option" where
  \<comment> \<open>the value of a hexadecimal digit, in either case\<close>
  "hex_digit c =
     (let k = (of_char c :: nat)
      in if 48 \<le> k \<and> k \<le> 57 then Some (k - 48)
         else if 65 \<le> k \<and> k \<le> 70 then Some (k - 55)
         else if 97 \<le> k \<and> k \<le> 102 then Some (k - 87)
         else None)"

datatype uri_unit = Literal char | Escape nat


fun uri_units :: "string \<Rightarrow> uri_unit list option" where
  \<comment> \<open>the text cut into plain characters and escapes \<open>%XX\<close>; \<^const>\<open>None\<close> when a \<open>%\<close> is
      not followed by two hexadecimal digits\<close>
  "uri_units [] = Some []"
| "uri_units (c # cs) =
     (if c = CHR ''%'' then
        (case cs of
           h1 # h2 # rest \<Rightarrow>
             (case (hex_digit h1, hex_digit h2) of
                (Some a, Some b) \<Rightarrow> map_option ((#) (Escape (16 * a + b))) (uri_units rest)
              | _ \<Rightarrow> None)
         | _ \<Rightarrow> None)
      else map_option ((#) (Literal c)) (uri_units cs))"

definition continuation :: "nat \<Rightarrow> bool" where
  \<comment> \<open>a UTF-8 continuation byte\<close>
  "continuation b = (128 \<le> b \<and> b \<le> 191)"

definition second_of_three :: "nat \<Rightarrow> nat \<Rightarrow> bool" where
  \<comment> \<open>the second byte of a three-byte sequence: no overlong form, no surrogate\<close>
  "second_of_three b b2 =
     (if b = 224 then 160 \<le> b2 \<and> b2 \<le> 191
      else if b = 237 then 128 \<le> b2 \<and> b2 \<le> 159
      else continuation b2)"

definition second_of_four :: "nat \<Rightarrow> nat \<Rightarrow> bool" where
  \<comment> \<open>the second byte of a four-byte sequence: no overlong form, nothing past U+10FFFF\<close>
  "second_of_four b b2 =
     (if b = 240 then 144 \<le> b2 \<and> b2 \<le> 191
      else if b = 244 then 128 \<le> b2 \<and> b2 \<le> 143
      else continuation b2)"

fun decode_units :: "uri_unit list \<Rightarrow> string option" where
  \<comment> \<open>an escape below 128 is that character; an escaped lead byte must be followed by
      the escaped continuation bytes of one well-formed UTF-8 sequence\<close>
  "decode_units [] = Some []"
| "decode_units (Literal c # us) = map_option ((#) c) (decode_units us)"
| "decode_units (Escape b # us) =
     (if b < 128 then map_option ((#) (char_of b)) (decode_units us)
      else if 194 \<le> b \<and> b \<le> 223 then
        (case us of
           Escape b2 # rest \<Rightarrow>
             if continuation b2
             then map_option ((@) [char_of b, char_of b2]) (decode_units rest)
             else None
         | _ \<Rightarrow> None)
      else if 224 \<le> b \<and> b \<le> 239 then
        (case us of
           Escape b2 # Escape b3 # rest \<Rightarrow>
             if second_of_three b b2 \<and> continuation b3
             then map_option ((@) [char_of b, char_of b2, char_of b3]) (decode_units rest)
             else None
         | _ \<Rightarrow> None)
      else if 240 \<le> b \<and> b \<le> 244 then
        (case us of
           Escape b2 # Escape b3 # Escape b4 # rest \<Rightarrow>
             if second_of_four b b2 \<and> continuation b3 \<and> continuation b4
             then map_option ((@) [char_of b, char_of b2, char_of b3, char_of b4])
                    (decode_units rest)
             else None
         | _ \<Rightarrow> None)
      else None)"

definition decodeURIComponent_utf8 :: "string \<Rightarrow> string option" where
  "decodeURIComponent_utf8 s = (case uri_units s of None \<Rightarrow> None | Some us \<Rightarrow> decode_units us)"

section \<open>Example hosts\<close>

definition pdfs_world :: "(string \<times> real option) list \<Rightarrow> world" where
  \<comment> \<open>a host whose directory \<open>./pdfs\<close> lists the given names, each with its modification
      time or \<^const>\<open>None\<close> when \<open>stat\<close> fails for it; every connection but 2 is open\<close>
  "pdfs_world dir =
     \<lparr>PDF_DIR = ''./pdfs'',
      readdirSync = (\<lambda>d. if d = ''./pdfs'' then Inr (map fst dir) else Inl ENOENT),
      statSync = (\<lambda>p. case map_of (map (\<lambda>(n, t). (''pdfs/'' @ n, t)) dir) p of
                        Some (Some t) \<Rightarrow> Inr \<lparr>mtimeMs = t\<rparr>
                      | _ \<Rightarrow> Inl ENOENT),
      file_bytes = (\<lambda>p. case map_of (map (\<lambda>(n, t). (''pdfs/'' @ n, t)) dir) p of
                        Some (Some t) \<Rightarrow> Some [37, 80, 68, 70]
                      | _ \<Rightarrow> None),
      decodeURIComponent = decodeURIComponent_utf8,
      localeCompare = localeCompare_ascii,
      send_returns = (\<lambda>c msg. if c = 2 then 0 else 1)\<rparr>"

definition percent_world :: world where
  \<comment> \<open>a host whose directory holds three files with a \<open>%\<close> in their names\<close>
  "percent_world =
     pdfs_world [(''100%.pdf'', Some 1), (''a%20b.pdf'', Some 2), (''%2E%2E.pdf'', Some 3)]"

definition missing_world :: world where
  \<comment> \<open>a host whose directory does not exist\<close>
  "missing_world = (pdfs_world [])\<lparr>readdirSync := (\<lambda>d. Inl ENOENT)\<rparr>"

definition idle :: "ws list \<Rightarrow> server" where
  "idle cs = \<lparr>clients = cs, sent = [], console = []\<rparr>"

section \<open>Facts about the scanner\<close>

lemmas path_defs = join_def normalize_def normalizeString_def normalizeSegments_def
  normalizeSegment_def isAbsolute_def

lemmas collation_defs = localeCompare_ascii_def primary_weight_def tertiary_weight_def
  is_lower_def is_upper_def is_digit_def

lemma map_throwing_Inr:
  "\<forall>x\<in>set xs. \<not> isl (f x) \<Longrightarrow> map_throwing f xs = Inr (map (\<lambda>x. projr (f x)) xs)"
  by (induction xs) (auto split: sum.splits)

lemma map_throwing_Inl:
  "x \<in> set xs \<Longrightarrow> isl (f x) \<Longrightarrow> isl (map_throwing f xs)"
  by (induction xs) (auto split: sum.splits)

lemma set_insert_by: "set (insert_by cmp x ys) = insert x (set ys)"
  by (induction ys) auto

lemma set_sort_by: "set (sort_by cmp xs) = set xs"
  by (induction xs) (auto simp: sort_by_def set_insert_by)

lemma distinct_map_insert_by:
  "distinct (map f (insert_by cmp x ys)) \<longleftrightarrow> f x \<notin> f ` set ys \<and> distinct (map f ys)"
  by (induction ys) (auto simp: set_insert_by)

lemma distinct_map_sort_by: "distinct (map f (sort_by cmp xs)) \<longleftrightarrow> distinct (map f xs)"
  by (induction xs) (auto simp: sort_by_def distinct_map_insert_by set_sort_by[unfolded sort_by_def])

lemma length_insert_by: "length (insert_by cmp x ys) = Suc (length ys)"
  by (induction ys) auto

lemma length_sort_by: "length (sort_by cmp xs) = length xs"
  by (induction xs) (auto simp: sort_by_def length_insert_by)

lemma consistent_on_subset: "consistent_on cmp A \<Longrightarrow> B \<subseteq> A \<Longrightarrow> consistent_on cmp B"
  unfolding consistent_on_def by blast

lemma consistent_on_total:
  "consistent_on cmp A \<Longrightarrow> a \<in> A \<Longrightarrow> b \<in> A \<Longrightarrow> \<not> cmp a b \<le> 0 \<Longrightarrow> cmp b a \<le> 0"
  unfolding consistent_on_def by blast

lemma consistent_on_trans:
  "consistent_on cmp A \<Longrightarrow> a \<in> A \<Longrightarrow> b \<in> A \<Longrightarrow> c \<in> A \<Longrightarrow>
     cmp a b \<le> 0 \<Longrightarrow> cmp b c \<le> 0 \<Longrightarrow> cmp a c \<le> 0"
  unfolding consistent_on_def by blast

lemma sorted_insert_by:
  assumes "consistent_on cmp (insert x (set ys))"
    and "sorted_wrt (\<lambda>a b. cmp a b \<le> 0) ys"
  shows "sorted_wrt (\<lambda>a b. cmp a b \<le> 0) (insert_by cmp x ys)"
  using assms
proof (induction ys)
  case Nil
  then show ?case by simp
next
  case (Cons y ys)
  have sub: "consistent_on cmp (insert x (set ys))"
    using Cons.prems(1) by (rule consistent_on_subset) auto
  show ?case
  proof (cases "cmp x y \<le> 0")
    case True
    have "\<forall>z\<in>set ys. cmp x z \<le> 0"
    proof
      fix z assume z: "z \<in> set ys"
      with Cons.prems(2) have "cmp y z \<le> 0" by simp
      with True show "cmp x z \<le> 0"
        using consistent_on_trans[OF Cons.prems(1), of x y z] z by simp
    qed
    with True Cons.prems(2) show ?thesis by simp
  next
    case False
    have yx: "cmp y x \<le> 0"
      using consistent_on_total[OF Cons.prems(1), of x y] False by simp
    from Cons.prems(2) have "sorted_wrt (\<lambda>a b. cmp a b \<le> 0) ys" by simp
    with Cons.IH sub have "sorted_wrt (\<lambda>a b. cmp a b \<le> 0) (insert_by cmp x ys)" by simp
    with False yx Cons.prems(2) show ?thesis by (auto simp: set_insert_by)
  qed
qed

lemma sorted_sort_by:
  "consistent_on cmp (set xs) \<Longrightarrow> sorted_wrt (\<lambda>a b. cmp a b \<le> 0) (sort_by cmp xs)"
proof (induction xs)
  case Nil
  then show ?case by (simp add: sort_by_def)
next
  case (Cons x xs)
  have "consistent_on cmp (set xs)"
    using Cons.prems by (rule consistent_on_subset) auto
  with Cons.IH have "sorted_wrt (\<lambda>a b. cmp a b \<le> 0) (sort_by cmp xs)" by simp
  moreover have "consistent_on cmp (insert x (set (sort_by cmp xs)))"
    using Cons.prems by (simp add: set_sort_by)
  ultimately have "sorted_wrt (\<lambda>a b. cmp a b \<le> 0) (insert_by cmp x (sort_by cmp xs))"
    by (rule sorted_insert_by[rotated])
  then show ?case by (simp add: sort_by_def)
qed

lemma consistent_on_name:
  "consistent_on cmp (f ` A) \<Longrightarrow> consistent_on (\<lambda>a b. cmp (f a) (f b)) A"
  unfolding consistent_on_def by blast

lemma pdf_entry_ok:
  "\<not> isl (statSync w (join [PDF_DIR w, n])) \<Longrightarrow> pdf_entry w n = Inr (entry_of w n)"
  by (auto simp: pdf_entry_def entry_of_def Let_def split: sum.splits)

lemma pdf_entry_fails:
  "isl (statSync w (join [PDF_DIR w, n])) \<Longrightarrow> isl (pdf_entry w n)"
  by (auto simp: pdf_entry_def Let_def split: sum.splits)

lemma listPdfs_all_stats:
  assumes "readdirSync w (PDF_DIR w) = Inr files"
    and "\<forall>f\<in>set files. endsWith f ''.pdf'' \<longrightarrow> \<not> isl (statSync w (join [PDF_DIR w, f]))"
  shows "listPdfs w = sort_by (\<lambda>a b. localeCompare w (name a) (name b))
                        (map (entry_of w) (filter (\<lambda>f. endsWith f ''.pdf'') files))"
proof -
  have "\<forall>f\<in>set (filter (\<lambda>f. endsWith f ''.pdf'') files). \<not> isl (pdf_entry w f)"
    using assms(2) by (simp add: pdf_entry_ok)
  then have "map_throwing (pdf_entry w) (filter (\<lambda>f. endsWith f ''.pdf'') files)
      = Inr (map (\<lambda>f. projr (pdf_entry w f)) (filter (\<lambda>f. endsWith f ''.pdf'') files))"
    by (rule map_throwing_Inr)
  also have "map (\<lambda>f. projr (pdf_entry w f)) (filter (\<lambda>f. endsWith f ''.pdf'') files)
      = map (entry_of w) (filter (\<lambda>f. endsWith f ''.pdf'') files)"
    using assms(2) by (simp add: pdf_entry_ok)
  finally show ?thesis
    using assms(1) by (simp add: listPdfs_def listPdfs_try_def)
qed

lemma listPdfs_one_stat_fails:
  assumes "readdirSync w (PDF_DIR w) = Inr files"
    and "f \<in> set files" and "endsWith f ''.pdf''"
    and "isl (statSync w (join [PDF_DIR w, f]))"
  shows "listPdfs w = []"
proof -
  have "isl (map_throwing (pdf_entry w) (filter (\<lambda>f. endsWith f ''.pdf'') files))"
    using assms by (intro map_throwing_Inl[of f]) (auto simp: pdf_entry_fails)
  then show ?thesis
    using assms(1) by (auto simp: listPdfs_def listPdfs_try_def split: sum.splits)
qed

lemma name_entry_of: "name (entry_of w n) = n"
  by (simp add: entry_of_def)

section \<open>Facts about strings and paths\<close>

lemma endsWith_iff_suffix: "endsWith s pat \<longleftrightarrow> suffix pat s"
proof
  assume "endsWith s pat"
  then have "s = take (length s - length pat) s @ pat"
    by (metis append_take_drop_id endsWith_def)
  then show "suffix pat s" by (metis suffixI)
next
  assume "suffix pat s"
  then obtain zs where "s = zs @ pat" by (auto simp: suffix_def)
  then show "endsWith s pat" by (simp add: endsWith_def)
qed

lemma includes_str_iff_sublist: "includes_str s pat \<longleftrightarrow> sublist pat s"
  by (induction s) (auto simp: sublist_Cons_right)

lemma includes_str_char: "includes_str s [c] \<longleftrightarrow> c \<in> set s"
  by (induction s) auto

lemma split_on_not_Nil: "split_on sep s \<noteq> []"
  by (induction s) (auto simp: Let_def)

lemma split_on_append:
  "split_on sep (xs @ sep # ys) = split_on sep xs @ split_on sep ys"
  by (induction xs) (auto simp: Let_def split_on_not_Nil)

lemma split_on_no_sep: "sep \<notin> set s \<Longrightarrow> split_on sep s = [s]"
  by (induction s) (auto simp: Let_def)

lemma split_on_segments: "x \<in> set (split_on sep s) \<Longrightarrow> sep \<notin> set x"
proof (induction s arbitrary: x)
  case Nil
  then show ?case by simp
next
  case (Cons c cs)
  obtain r rs where r: "split_on sep cs = r # rs"
    using split_on_not_Nil[of sep cs] by (cases "split_on sep cs") auto
  with Cons show ?case by (auto simp: Let_def split: if_splits)
qed

lemma split_on_joinWith:
  "xs \<noteq> [] \<Longrightarrow> \<forall>x\<in>set xs. sep \<notin> set x \<Longrightarrow> split_on sep (joinWith [sep] xs) = xs"
proof (induction "[sep]" xs rule: joinWith.induct)
  case 1
  then show ?case by simp
next
  case (2 x)
  then show ?case by (simp add: split_on_no_sep)
next
  case (3 x y ys)
  then show ?case by (simp add: split_on_append split_on_no_sep)
qed

lemma joinWith_snoc_not_Nil: "s \<noteq> [] \<Longrightarrow> joinWith sep (xs @ [s]) \<noteq> []"
  by (induction sep xs rule: joinWith.induct) auto

lemma last_joinWith_snoc: "s \<noteq> [] \<Longrightarrow> last (joinWith sep (xs @ [s])) = last s"
proof (induction sep xs rule: joinWith.induct)
  case (1 sep)
  then show ?case by simp
next
  case (2 sep x)
  then show ?case by simp
next
  case (3 sep x y ys)
  then have "joinWith sep ((y # ys) @ [s]) \<noteq> []" by (intro joinWith_snoc_not_Nil)
  with 3 show ?case by simp
qed

lemma joinWith_hd_not_Nil: "xs \<noteq> [] \<Longrightarrow> hd xs \<noteq> [] \<Longrightarrow> joinWith sep xs \<noteq> []"
  by (induction sep xs rule: joinWith.induct) auto

lemma hd_joinWith: "xs \<noteq> [] \<Longrightarrow> hd xs \<noteq> [] \<Longrightarrow> hd (joinWith sep xs) = hd (hd xs)"
  by (induction sep xs rule: joinWith.induct) auto

lemma normalized_Nil: "normalized up []"
  by (simp add: normalized_def)

lemma normalized_butlast: "normalized up res \<Longrightarrow> normalized up (butlast res)"
  unfolding normalized_def
  by (auto simp: butlast_conv_take sorted_wrt_take dest: in_set_takeD)

lemma normalized_all_dotdot:
  assumes "normalized up res" and "res = [] \<or> last res = ''..''"
  shows "\<forall>s\<in>set res. s = ''..''"
proof (cases "res = []")
  case True
  then show ?thesis by simp
next
  case False
  with assms(2) have l: "last res = ''..''" by simp
  from False have "res = butlast res @ [last res]" by simp
  with assms(1) have "sorted_wrt (\<lambda>a b. b = ''..'' \<longrightarrow> a = ''..'') (butlast res @ [last res])"
    by (simp add: normalized_def)
  then have "\<forall>s\<in>set (butlast res). s = ''..''"
    using l by (simp add: sorted_wrt_append)
  moreover have "set res = insert (last res) (set (butlast res))"
    using False by (metis append_butlast_last_id list.simps(15) rotate1.simps(2) set_rotate1)
  ultimately show ?thesis using l by simp
qed

lemma normalized_step:
  assumes "normalized up res" and "CHR ''/'' \<notin> set seg"
  shows "normalized up (normalizeSegment up res seg)"
proof -
  consider (skip) "seg = [] \<or> seg = ''.''"
    | (pop) "seg = ''..''" "res \<noteq> []" "last res \<noteq> ''..''"
    | (keep) "seg = ''..''" "res = [] \<or> last res = ''..''" "up"
    | (drop) "seg = ''..''" "res = [] \<or> last res = ''..''" "\<not> up"
    | (push) "seg \<noteq> []" "seg \<noteq> ''.''" "seg \<noteq> ''..''"
    by blast
  then show ?thesis
  proof cases
    case skip
    then show ?thesis using assms(1) by (auto simp: normalizeSegment_def)
  next
    case pop
    then show ?thesis using normalized_butlast[OF assms(1)] by (simp add: normalizeSegment_def)
  next
    case keep
    have "\<forall>s\<in>set res. s = ''..''" using assms(1) keep(2) by (rule normalized_all_dotdot)
    then have "normalized up (res @ [''..''])"
      using assms(1) keep(3) by (auto simp: normalized_def sorted_wrt_append)
    then show ?thesis using keep by (auto simp: normalizeSegment_def)
  next
    case drop
    then show ?thesis using assms(1) by (auto simp: normalizeSegment_def)
  next
    case push
    then have "normalized up (res @ [seg])"
      using assms by (auto simp: normalized_def sorted_wrt_append)
    then show ?thesis using push by (simp add: normalizeSegment_def)
  qed
qed

lemma normalized_foldl:
  "normalized up res \<Longrightarrow> \<forall>s\<in>set segs. CHR ''/'' \<notin> set s \<Longrightarrow>
     normalized up (foldl (normalizeSegment up) res segs)"
  by (induction segs arbitrary: res) (simp_all add: normalized_step)

lemma normalized_normalizeSegments: "normalized up (normalizeSegments up p)"
  unfolding normalizeSegments_def
  by (rule normalized_foldl) (auto simp: normalized_Nil dest: split_on_segments)

lemma normalized_fixpoint:
  "normalized up segs \<Longrightarrow> foldl (normalizeSegment up) [] segs = segs"
proof (induction segs rule: rev_induct)
  case Nil
  then show ?case by simp
next
  case (snoc x xs)
  from snoc.prems have nx: "normalized up xs"
    by (auto simp: normalized_def sorted_wrt_append)
  with snoc.IH have IH: "foldl (normalizeSegment up) [] xs = xs" by simp
  have step: "foldl (normalizeSegment up) [] (xs @ [x]) = normalizeSegment up xs x"
    by (simp add: IH)
  from snoc.prems have x: "x \<noteq> []" "x \<noteq> ''.''" by (auto simp: normalized_def)
  show ?case
  proof (cases "x = ''..''")
    case True
    with snoc.prems have all: "\<forall>s\<in>set xs. s = ''..''" and up: "up"
      by (auto simp: normalized_def sorted_wrt_append)
    from all have "xs = [] \<or> last xs = ''..''" by (cases "xs = []") auto
    with True up show ?thesis unfolding step by (auto simp: normalizeSegment_def)
  next
    case False
    with x show ?thesis unfolding step by (simp add: normalizeSegment_def)
  qed
qed

lemma valid_name_plain:
  assumes "valid_name nm"
  shows "nm \<noteq> []" "nm \<noteq> ''.''" "nm \<noteq> ''..''" "CHR ''/'' \<notin> set nm"
proof -
  from assms have e: "endsWith nm ''.pdf''" and s: "\<not> includes_str nm ''/''"
    by (simp_all add: valid_name_def)
  from e have "4 \<le> length nm" by (simp add: endsWith_def)
  then show "nm \<noteq> []" "nm \<noteq> ''.''" "nm \<noteq> ''..''" by auto
  from s show "CHR ''/'' \<notin> set nm" by (simp add: includes_str_char)
qed

lemma normalizeSegments_child:
  assumes "nm \<noteq> []" "nm \<noteq> ''.''" "nm \<noteq> ''..''" "CHR ''/'' \<notin> set nm"
  shows "normalizeSegments up (dir @ CHR ''/'' # nm) = normalizeSegments up dir @ [nm]"
    and "normalizeSegments up nm = [nm]"
  using assms
  by (simp_all add: normalizeSegments_def split_on_append split_on_no_sep normalizeSegment_def)

lemma normalizeSegments_Nil: "normalizeSegments up [] = []"
  by (simp add: normalizeSegments_def normalizeSegment_def)

lemma join_child:
  assumes "nm \<noteq> []" "nm \<noteq> ''.''" "nm \<noteq> ''..''" "CHR ''/'' \<notin> set nm"
  shows "join [dir, nm] =
     (if isAbsolute dir then ''/'' else []) @ joinWith ''/'' (path_segments dir @ [nm])"
proof (cases "dir = []")
  case True
  have "\<not> isAbsolute nm" using assms by (cases nm) (auto simp: isAbsolute_def)
  moreover have "last nm \<noteq> CHR ''/''" using assms by (metis last_in_set)
  ultimately show ?thesis
    using True assms
    by (simp add: join_def normalize_def normalizeString_def normalizeSegments_child
        path_segments_def normalizeSegments_Nil isAbsolute_def)
next
  case False
  let ?j = "dir @ CHR ''/'' # nm"
  have j: "joinWith ''/'' (filter (\<lambda>arg. arg \<noteq> []) [dir, nm]) = ?j"
    using False assms(1) by simp
  have abs: "isAbsolute ?j = isAbsolute dir"
    using False by (simp add: isAbsolute_def)
  have last: "last ?j \<noteq> CHR ''/''"
    using assms by (metis last_in_set last_appendR last_ConsR list.distinct(1))
  have q: "normalizeString ?j (\<not> isAbsolute ?j) = joinWith ''/'' (path_segments dir @ [nm])"
    using assms by (simp add: normalizeString_def abs normalizeSegments_child path_segments_def)
  have ne: "joinWith ''/'' (path_segments dir @ [nm]) \<noteq> []"
    using assms(1) by (rule joinWith_snoc_not_Nil)
  have "join [dir, nm] = normalize ?j"
    unfolding join_def j by (simp add: Let_def)
  also have "\<dots> = (if isAbsolute dir then ''/'' else []) @ joinWith ''/'' (path_segments dir @ [nm])"
    unfolding normalize_def Let_def q using ne last abs by simp
  finally show ?thesis .
qed

lemma normalized_child:
  assumes "nm \<noteq> []" "nm \<noteq> ''.''" "nm \<noteq> ''..''" "CHR ''/'' \<notin> set nm"
  shows "normalized (\<not> isAbsolute dir) (path_segments dir @ [nm])"
proof -
  have "normalized (\<not> isAbsolute dir) (path_segments dir)"
    unfolding path_segments_def by (rule normalized_normalizeSegments)
  with assms show ?thesis by (auto simp: normalized_def sorted_wrt_append)
qed

lemma path_segments_rendered:
  assumes "normalized (\<not> a) segs" and "segs \<noteq> []"
  shows "isAbsolute ((if a then ''/'' else []) @ joinWith ''/'' segs) = a"
    and "path_segments ((if a then ''/'' else []) @ joinWith ''/'' segs) = segs"
proof -
  let ?r = "(if a then ''/'' else []) @ joinWith ''/'' segs"
  from assms have h: "hd segs \<noteq> []" "CHR ''/'' \<notin> set (hd segs)"
    by (auto simp: normalized_def)
  then have "hd (hd segs) \<noteq> CHR ''/''" by (metis hd_in_set)
  then have hd: "hd (joinWith ''/'' segs) \<noteq> CHR ''/''"
    using assms(2) h(1) by (simp add: hd_joinWith)
  have jne: "joinWith ''/'' segs \<noteq> []"
    using assms(2) h(1) by (rule joinWith_hd_not_Nil)
  show abs: "isAbsolute ?r = a"
    using hd jne by (simp add: isAbsolute_def)
  have nosep: "\<forall>x\<in>set segs. CHR ''/'' \<notin> set x"
    using assms(1) by (simp add: normalized_def)
  have sp: "split_on CHR ''/'' (joinWith ''/'' segs) = segs"
    using split_on_joinWith[OF assms(2) nosep] by simp
  have "split_on CHR ''/'' ?r = (if a then [[]] else []) @ segs"
    using sp by (simp add: Let_def)
  then have "normalizeSegments (\<not> a) ?r = foldl (normalizeSegment (\<not> a)) [] segs"
    by (simp add: normalizeSegments_def normalizeSegment_def)
  also have "\<dots> = segs" using assms(1) by (rule normalized_fixpoint)
  finally show "path_segments ?r = segs"
    unfolding path_segments_def abs .
qed

lemma valid_name_iff:
  "valid_name nm \<longleftrightarrow> suffix ''.pdf'' nm \<and> CHR ''/'' \<notin> set nm \<and> \<not> sublist ''..'' nm"
  by (simp add: valid_name_def endsWith_iff_suffix includes_str_iff_sublist[symmetric]
      includes_str_char)

section \<open>Facts about broadcasts\<close>

lemma foldl_ws_send:
  "foldl (\<lambda>s' c. ws_send w c msg s') s cs =
     s\<lparr>sent := sent s @ map (\<lambda>c. (c, msg, send_returns w c msg)) cs\<rparr>"
  by (induction cs arbitrary: s) (simp_all add: ws_send_def)

lemma broadcast_eq:
  "broadcast w msg s =
     s\<lparr>sent := sent s @ map (\<lambda>c. (c, msg, send_returns w c msg)) (clients s)\<rparr>"
  by (simp add: broadcast_def foldl_ws_send)

lemma watch_callback_pdf:
  "endsWith f ''.pdf'' \<Longrightarrow>
   watch_callback w event (Some f) s =
     s\<lparr>console := console s @ [''[watch] '' @ event @ '': '' @ f],
       sent := sent s
         @ map (\<lambda>c. (c, PdfsUpdated (listPdfs w), send_returns w c (PdfsUpdated (listPdfs w))))
             (clients s)
         @ map (\<lambda>c. (c, PdfChanged f, send_returns w c (PdfChanged f))) (clients s)\<rparr>"
  by (simp add: watch_callback_def broadcastPdfs_def broadcast_eq Let_def)

lemma sent_to_append: "sent_to c (xs @ ys) = sent_to c xs @ sent_to c ys"
  by (simp add: sent_to_def)

lemma delivered_to_append: "delivered_to c (xs @ ys) = delivered_to c xs @ delivered_to c ys"
  by (simp add: delivered_to_def)

lemma sent_to_map:
  "distinct cs \<Longrightarrow>
   sent_to c (map (\<lambda>c. (c, msg, r c)) cs) = (if c \<in> set cs then [msg] else [])"
  by (induction cs) (auto simp: sent_to_def)

lemma delivered_to_map:
  "distinct cs \<Longrightarrow>
   delivered_to c (map (\<lambda>c. (c, msg, r c)) cs) = (if c \<in> set cs \<and> r c \<noteq> 0 then [msg] else [])"
  by (induction cs) (auto simp: delivered_to_def)

lemma distinct_websocket_open: "distinct (clients s) \<Longrightarrow> distinct (clients (websocket_open c s))"
  by (simp add: websocket_open_def)

lemma distinct_websocket_close: "distinct (clients s) \<Longrightarrow> distinct (clients (websocket_close c s))"
  by (simp add: websocket_close_def distinct_removeAll)

lemma listPdfs_one_file:
  "listPdfs (pdfs_world [(''a.pdf'', Some 2)])
     = [\<lparr>name = ''a.pdf'', path = ''pdfs/a.pdf'', modified = 2\<rparr>]"
  by (simp add: listPdfs_def listPdfs_try_def pdfs_world_def pdf_entry_def endsWith_def
      sort_by_def path_defs)

lemma uri_units_plain: "CHR ''%'' \<notin> set s \<Longrightarrow> uri_units s = Some (map Literal s)"
  by (induction s) auto

lemma decode_units_plain: "decode_units (map Literal s) = Some s"
  by (induction s) auto

lemma decodeURIComponent_utf8_plain:
  "CHR ''%'' \<notin> set s \<Longrightarrow> decodeURIComponent_utf8 s = Some s"
  by (simp add: decodeURIComponent_utf8_def uri_units_plain decode_units_plain)

lemma decode_pdfs_world: "decodeURIComponent (pdfs_world dir) = decodeURIComponent_utf8"
  by (simp add: pdfs_world_def)

section \<open>Directory scanner: the properties\<close>

text \<open>
  C1, as the code has it. The \<open>try\<close> block spans the whole scan, so an entry whose
  \<open>stat\<close> fails is not left out on its own: when the directory can be listed and
  \<open>stat\<close> fails for any entry with the recognized extension, the scan returns the empty
  snapshot (and does not throw).
\<close>

theorem listPdfs_stat_failure_empties:
  assumes "readdirSync w (PDF_DIR w) = Inr files"
    and "f \<in> set files" and "endsWith f ''.pdf''"
    and "isl (statSync w (join [PDF_DIR w, f]))"
  shows "listPdfs w = []"
  using assms by (rule listPdfs_one_stat_fails)

theorem listPdfs_stat_failure_empties_witness:
  "listPdfs (pdfs_world [(''a.pdf'', Some 3), (''b.pdf'', None)]) = []"
proof -
  let ?w = "pdfs_world [(''a.pdf'', Some 3), (''b.pdf'', None)]"
  have 1: "readdirSync ?w (PDF_DIR ?w) = Inr [''a.pdf'', ''b.pdf'']"
    by (simp add: pdfs_world_def)
  have 2: "''b.pdf'' \<in> set [''a.pdf'', ''b.pdf'']" by simp
  have 3: "endsWith ''b.pdf'' ''.pdf''" by (simp add: endsWith_def)
  have 4: "isl (statSync ?w (join [PDF_DIR ?w, ''b.pdf'']))"
    by (simp add: pdfs_world_def path_defs)
  from listPdfs_stat_failure_empties[OF 1 2 3 4] show ?thesis .
qed

text \<open>
  The directory lists \<open>a.pdf\<close>, \<open>b.pdf\<close> and \<open>c.pdf\<close>; \<open>stat\<close> fails for \<open>b.pdf\<close> only. The
  snapshot is empty: it holds neither \<open>a.pdf\<close> nor \<open>c.pdf\<close>.
\<close>

theorem listPdfs_stat_failure_counterexample:
  "readdirSync (pdfs_world [(''a.pdf'', Some 3), (''b.pdf'', None), (''c.pdf'', Some 1)]) ''./pdfs''
      = Inr [''a.pdf'', ''b.pdf'', ''c.pdf'']
   \<and> statSync (pdfs_world [(''a.pdf'', Some 3), (''b.pdf'', None), (''c.pdf'', Some 1)]) ''pdfs/a.pdf'' = Inr \<lparr>mtimeMs = 3\<rparr>
   \<and> statSync (pdfs_world [(''a.pdf'', Some 3), (''b.pdf'', None), (''c.pdf'', Some 1)]) ''pdfs/b.pdf'' = Inl ENOENT
   \<and> statSync (pdfs_world [(''a.pdf'', Some 3), (''b.pdf'', None), (''c.pdf'', Some 1)]) ''pdfs/c.pdf'' = Inr \<lparr>mtimeMs = 1\<rparr>
   \<and> listPdfs (pdfs_world [(''a.pdf'', Some 3), (''b.pdf'', None), (''c.pdf'', Some 1)]) = []
   \<and> ''a.pdf'' \<notin> set (map name
        (listPdfs (pdfs_world [(''a.pdf'', Some 3), (''b.pdf'', None), (''c.pdf'', Some 1)])))"
  by (simp add: listPdfs_def listPdfs_try_def pdfs_world_def pdf_entry_def endsWith_def
      sort_by_def path_defs)

text \<open>
  C2, as the code has it. When the directory can be listed and \<open>stat\<close> succeeds for every
  entry with the recognized extension, the snapshot is ascending by name in the order of
  \<open>localeCompare\<close> (the host's collation, consistent on the names at hand), has no name
  twice (a listing has none, and the scan removes no duplicates itself), and its names
  are exactly the listed names that end with \<open>.pdf\<close>, compared case-sensitively; each
  entry carries the joined path and the modification time of its name.
\<close>

theorem listPdfs_sorted_distinct_exact:
  assumes "readdirSync w (PDF_DIR w) = Inr files"
    and "distinct files"
    and "\<forall>f\<in>set files. endsWith f ''.pdf'' \<longrightarrow> \<not> isl (statSync w (join [PDF_DIR w, f]))"
    and "consistent_on (localeCompare w) {f \<in> set files. endsWith f ''.pdf''}"
  shows "sorted_wrt (\<lambda>a b. localeCompare w (name a) (name b) \<le> 0) (listPdfs w)
       \<and> distinct (map name (listPdfs w))
       \<and> set (map name (listPdfs w)) = {f \<in> set files. endsWith f ''.pdf''}
       \<and> set (listPdfs w) = entry_of w ` {f \<in> set files. endsWith f ''.pdf''}"
proof -
  let ?m = "filter (\<lambda>f. endsWith f ''.pdf'') files"
  let ?c = "\<lambda>a b. localeCompare w (name a) (name b)"
  have eq: "listPdfs w = sort_by ?c (map (entry_of w) ?m)"
    using assms(1,3) by (rule listPdfs_all_stats)
  have names: "map name (map (entry_of w) ?m) = ?m"
    by (simp add: name_entry_of comp_def)
  have img: "name ` set (map (entry_of w) ?m) = {f \<in> set files. endsWith f ''.pdf''}"
    by (auto simp: name_entry_of image_iff)
  have "consistent_on (localeCompare w) (name ` set (map (entry_of w) ?m))"
    using assms(4) by (simp only: img)
  then have "consistent_on ?c (set (map (entry_of w) ?m))"
    by (rule consistent_on_name)
  then have 1: "sorted_wrt (\<lambda>a b. ?c a b \<le> 0) (listPdfs w)"
    unfolding eq by (rule sorted_sort_by)
  have 2: "distinct (map name (listPdfs w))"
    unfolding eq distinct_map_sort_by names using assms(2) by simp
  have "set (map name (listPdfs w)) = name ` set (map (entry_of w) ?m)"
    unfolding eq by (simp add: set_sort_by)
  also have "\<dots> = set ?m" by (auto simp: name_entry_of image_iff)
  finally have 3: "set (map name (listPdfs w)) = {f \<in> set files. endsWith f ''.pdf''}" by simp
  have 4: "set (listPdfs w) = entry_of w ` {f \<in> set files. endsWith f ''.pdf''}"
    unfolding eq by (simp add: set_sort_by)
  from 1 2 3 4 show ?thesis by simp
qed

theorem listPdfs_sorted_distinct_exact_witness:
  "sorted_wrt (\<lambda>a b. localeCompare_ascii (name a) (name b) \<le> 0)
     (listPdfs (pdfs_world [(''B.pdf'', Some 5), (''notes.txt'', Some 3), (''a.pdf'', Some 2)]))
   \<and> distinct (map name
     (listPdfs (pdfs_world [(''B.pdf'', Some 5), (''notes.txt'', Some 3), (''a.pdf'', Some 2)])))
   \<and> set (map name
     (listPdfs (pdfs_world [(''B.pdf'', Some 5), (''notes.txt'', Some 3), (''a.pdf'', Some 2)])))
       = {''B.pdf'', ''a.pdf''}"
proof -
  let ?w = "pdfs_world [(''B.pdf'', Some 5), (''notes.txt'', Some 3), (''a.pdf'', Some 2)]"
  let ?files = "[''B.pdf'', ''notes.txt'', ''a.pdf'']"
  have lc: "localeCompare ?w = localeCompare_ascii" by (simp add: pdfs_world_def)
  have m: "{f \<in> set ?files. endsWith f ''.pdf''} = {''B.pdf'', ''a.pdf''}"
    by (auto simp: endsWith_def)
  have c: "localeCompare_ascii ''a.pdf'' ''B.pdf'' = - 1" "localeCompare_ascii ''B.pdf'' ''a.pdf'' = 1"
    "localeCompare_ascii ''a.pdf'' ''a.pdf'' = 0" "localeCompare_ascii ''B.pdf'' ''B.pdf'' = 0"
    by (simp_all add: collation_defs)
  have 1: "readdirSync ?w (PDF_DIR ?w) = Inr ?files"
    by (simp add: pdfs_world_def)
  have 2: "distinct ?files" by simp
  have 3: "\<forall>f\<in>set ?files. endsWith f ''.pdf'' \<longrightarrow> \<not> isl (statSync ?w (join [PDF_DIR ?w, f]))"
    by (simp add: pdfs_world_def endsWith_def path_defs)
  have 4: "consistent_on (localeCompare ?w) {f \<in> set ?files. endsWith f ''.pdf''}"
    unfolding m lc by (simp add: consistent_on_def c)
  from listPdfs_sorted_distinct_exact[OF 1 2 3 4] show ?thesis
    unfolding m lc by (elim conjE, intro conjI) assumption+
qed

text \<open>
  With \<open>B.pdf\<close> and \<open>a.pdf\<close> in the directory the snapshot is \<open>a.pdf\<close>, \<open>B.pdf\<close>, although
  \<open>B.pdf\<close> comes first by character code. With \<open>x.pdf\<close> and \<open>y.pdf\<close> in the directory and
  \<open>stat\<close> failing for \<open>x.pdf\<close>, the snapshot is empty although \<open>y.pdf\<close> matches and has
  its metadata.
\<close>

theorem listPdfs_order_counterexample:
  "map name (listPdfs (pdfs_world [(''B.pdf'', Some 1), (''a.pdf'', Some 2)])) = [''a.pdf'', ''B.pdf'']
   \<and> code_unit_less ''B.pdf'' ''a.pdf''
   \<and> readdirSync (pdfs_world [(''x.pdf'', None), (''y.pdf'', Some 2)]) ''./pdfs'' = Inr [''x.pdf'', ''y.pdf'']
   \<and> statSync (pdfs_world [(''x.pdf'', None), (''y.pdf'', Some 2)]) ''pdfs/y.pdf'' = Inr \<lparr>mtimeMs = 2\<rparr>
   \<and> listPdfs (pdfs_world [(''x.pdf'', None), (''y.pdf'', Some 2)]) = []"
  by (simp add: listPdfs_def listPdfs_try_def pdfs_world_def pdf_entry_def endsWith_def
      sort_by_def path_defs collation_defs)

text \<open>
  C3. When enumerating the directory fails (it is missing or unreadable), the scan
  returns the empty snapshot; \<^const>\<open>listPdfs\<close> has no error result at all.
\<close>

theorem listPdfs_enumeration_failure:
  "readdirSync w (PDF_DIR w) = Inl e \<Longrightarrow> listPdfs w = []"
  by (simp add: listPdfs_def listPdfs_try_def)

theorem listPdfs_enumeration_failure_witness:
  "readdirSync missing_world (PDF_DIR missing_world) = Inl ENOENT \<and> listPdfs missing_world = []"
proof -
  have h: "readdirSync missing_world (PDF_DIR missing_world) = Inl ENOENT"
    by (simp add: missing_world_def pdfs_world_def)
  from listPdfs_enumeration_failure[OF h] h show ?thesis by simp
qed

section \<open>Synchronization engine: the properties\<close>

text \<open>
  C6. For a notification whose file name ends with \<open>.pdf\<close>, the calls of \<open>send\<close> made by the
  reaction are one \<open>pdfs-updated\<close> message per registered observer, carrying the scan made
  in this reaction, and after all of them one \<open>pdf-changed\<close> message per registered observer,
  carrying the notified name. So each registered observer is sent exactly these two
  messages, in this order, and has both delivered when its connection drops neither; an
  observer that is not registered is sent nothing.
\<close>

theorem watch_callback_pdf_broadcasts:
  assumes "endsWith f ''.pdf''" and "distinct (clients s)"
  shows "sent_since s (watch_callback w event (Some f) s) =
           map (\<lambda>c. (c, PdfsUpdated (listPdfs w), send_returns w c (PdfsUpdated (listPdfs w))))
             (clients s)
           @ map (\<lambda>c. (c, PdfChanged f, send_returns w c (PdfChanged f))) (clients s)
       \<and> (\<forall>c\<in>set (clients s).
            sent_to c (sent_since s (watch_callback w event (Some f) s))
              = [PdfsUpdated (listPdfs w), PdfChanged f])
       \<and> (\<forall>c\<in>set (clients s).
            send_returns w c (PdfsUpdated (listPdfs w)) \<noteq> 0 \<and> send_returns w c (PdfChanged f) \<noteq> 0
            \<longrightarrow> delivered_to c (sent_since s (watch_callback w event (Some f) s))
              = [PdfsUpdated (listPdfs w), PdfChanged f])
       \<and> (\<forall>c. c \<notin> set (clients s) \<longrightarrow>
            sent_to c (sent_since s (watch_callback w event (Some f) s)) = [])"
proof -
  have since: "sent_since s (watch_callback w event (Some f) s) =
           map (\<lambda>c. (c, PdfsUpdated (listPdfs w), send_returns w c (PdfsUpdated (listPdfs w))))
             (clients s)
           @ map (\<lambda>c. (c, PdfChanged f, send_returns w c (PdfChanged f))) (clients s)"
    by (simp add: watch_callback_pdf[OF assms(1)] sent_since_def)
  show ?thesis
    unfolding since sent_to_append delivered_to_append
    by (simp add: sent_to_map[OF assms(2)] delivered_to_map[OF assms(2)])
qed

theorem watch_callback_pdf_broadcasts_witness:
  "sent_since (idle [1, 2, 3])
      (watch_callback (pdfs_world [(''a.pdf'', Some 2)]) ''change'' (Some ''a.pdf'') (idle [1, 2, 3]))
     = [(1, PdfsUpdated [\<lparr>name = ''a.pdf'', path = ''pdfs/a.pdf'', modified = 2\<rparr>], 1),
        (2, PdfsUpdated [\<lparr>name = ''a.pdf'', path = ''pdfs/a.pdf'', modified = 2\<rparr>], 0),
        (3, PdfsUpdated [\<lparr>name = ''a.pdf'', path = ''pdfs/a.pdf'', modified = 2\<rparr>], 1),
        (1, PdfChanged ''a.pdf'', 1), (2, PdfChanged ''a.pdf'', 0), (3, PdfChanged ''a.pdf'', 1)]
   \<and> delivered_to 3 (sent_since (idle [1, 2, 3])
      (watch_callback (pdfs_world [(''a.pdf'', Some 2)]) ''change'' (Some ''a.pdf'') (idle [1, 2, 3])))
     = [PdfsUpdated [\<lparr>name = ''a.pdf'', path = ''pdfs/a.pdf'', modified = 2\<rparr>], PdfChanged ''a.pdf'']"
proof -
  let ?w = "pdfs_world [(''a.pdf'', Some 2)]"
  have 1: "endsWith ''a.pdf'' ''.pdf''" by (simp add: endsWith_def)
  have 2: "distinct (clients (idle [1, 2, 3]))" by (simp add: idle_def)
  have c: "clients (idle [1, 2, 3]) = [1, 2, 3]" by (simp add: idle_def)
  have r: "send_returns ?w c m = (if c = 2 then 0 else 1)" for c m
    by (simp add: pdfs_world_def)
  from watch_callback_pdf_broadcasts[OF 1 2, of ?w "''change''"]
  show ?thesis
    unfolding listPdfs_one_file c r by (simp add: delivered_to_def)
qed

text \<open>
  C7. A notification whose file name does not end with \<open>.pdf\<close> (compared case-sensitively)
  leaves the server as it was: no message is sent, nothing is logged.
\<close>

theorem watch_callback_other_extension:
  "\<not> endsWith f ''.pdf'' \<Longrightarrow>
     watch_callback w event (Some f) s = s \<and> sent_since s (watch_callback w event (Some f) s) = []"
  by (simp add: watch_callback_def sent_since_def)

theorem watch_callback_other_extension_witness:
  "watch_callback (pdfs_world [(''a.pdf'', Some 2)]) ''rename'' (Some ''notes.PDF'') (idle [1, 2, 3])
     = idle [1, 2, 3]
   \<and> sent_since (idle [1, 2, 3])
        (watch_callback (pdfs_world [(''a.pdf'', Some 2)]) ''rename'' (Some ''notes.PDF'') (idle [1, 2, 3]))
     = []"
proof -
  have 1: "\<not> endsWith ''notes.PDF'' ''.pdf''" by (simp add: endsWith_def)
  from watch_callback_other_extension[OF 1] show ?thesis .
qed

text \<open>
  C8. \<open>send\<close> reports a failure by the number it returns, and the broadcast loop does not
  look at that number. So when the send to one registered observer fails, still every
  registered observer is sent the message exactly once, it is delivered to each whose own
  send did not fail, and the broadcast returns normally: \<^const>\<open>broadcast\<close> has no
  error result, and the set of observers is as before.
\<close>

theorem broadcast_send_failure_isolated:
  assumes "distinct (clients s)"
    and "bad \<in> set (clients s)" and "send_returns w bad msg = 0"
  shows "sent_since s (broadcast w msg s) = map (\<lambda>c. (c, msg, send_returns w c msg)) (clients s)
       \<and> (\<forall>c\<in>set (clients s). sent_to c (sent_since s (broadcast w msg s)) = [msg])
       \<and> (\<forall>c\<in>set (clients s). send_returns w c msg \<noteq> 0 \<longrightarrow>
             delivered_to c (sent_since s (broadcast w msg s)) = [msg])
       \<and> clients (broadcast w msg s) = clients s"
  by (simp add: broadcast_eq sent_since_def sent_to_map[OF assms(1)] delivered_to_map[OF assms(1)])

theorem broadcast_send_failure_isolated_witness:
  "send_returns (pdfs_world []) 2 (PdfChanged ''a.pdf'') = 0
   \<and> sent_to 1 (sent_since (idle [1, 2, 3]) (broadcast (pdfs_world []) (PdfChanged ''a.pdf'') (idle [1, 2, 3])))
       = [PdfChanged ''a.pdf'']
   \<and> delivered_to 1 (sent_since (idle [1, 2, 3]) (broadcast (pdfs_world []) (PdfChanged ''a.pdf'') (idle [1, 2, 3])))
       = [PdfChanged ''a.pdf'']
   \<and> delivered_to 2 (sent_since (idle [1, 2, 3]) (broadcast (pdfs_world []) (PdfChanged ''a.pdf'') (idle [1, 2, 3])))
       = []
   \<and> delivered_to 3 (sent_since (idle [1, 2, 3]) (broadcast (pdfs_world []) (PdfChanged ''a.pdf'') (idle [1, 2, 3])))
       = [PdfChanged ''a.pdf'']"
proof -
  let ?w = "pdfs_world []"
  let ?s = "idle [1, 2, 3]"
  let ?m = "PdfChanged ''a.pdf''"
  have 1: "distinct (clients ?s)" by (simp add: idle_def)
  have 2: "2 \<in> set (clients ?s)" by (simp add: idle_def)
  have 3: "send_returns ?w 2 ?m = 0" by (simp add: pdfs_world_def)
  have c: "clients ?s = [1, 2, 3]" by (simp add: idle_def)
  have r: "send_returns ?w c m = (if c = 2 then 0 else 1)" for c m
    by (simp add: pdfs_world_def)
  note t = broadcast_send_failure_isolated[OF 1 2 3]
  from t have e: "sent_since ?s (broadcast ?w ?m ?s) = map (\<lambda>c. (c, ?m, send_returns ?w c ?m)) (clients ?s)"
    by (rule conjunct1)
  show ?thesis
    unfolding e c r by (simp add: sent_to_def delivered_to_def)
qed

text \<open>
  C9. A notification without a file name leaves the server as it was: nothing is sent.
\<close>

theorem watch_callback_no_filename:
  "watch_callback w event None s = s \<and> sent_since s (watch_callback w event None s) = []"
  by (simp add: watch_callback_def sent_since_def)

text \<open>
  C10. The name in the \<open>pdf-changed\<close> message is the notified name as it came, whatever the
  scan found: also when the snapshot sent just before does not list that name, the
  observer is sent \<open>pdf-changed\<close> with it.
\<close>

theorem pdf_changed_name_unchecked:
  assumes "endsWith f ''.pdf''" and "distinct (clients s)" and "c \<in> set (clients s)"
    and "f \<notin> set (map name (listPdfs w))"
  shows "sent_to c (sent_since s (watch_callback w event (Some f) s))
           = [PdfsUpdated (listPdfs w), PdfChanged f]"
  using assms(3)
  by (simp add: watch_callback_pdf[OF assms(1)] sent_since_def sent_to_append
      sent_to_map[OF assms(2)])

theorem pdf_changed_name_unchecked_witness:
  "''gone.pdf'' \<notin> set (map name (listPdfs (pdfs_world [(''a.pdf'', Some 2)])))
   \<and> sent_to 1 (sent_since (idle [1])
        (watch_callback (pdfs_world [(''a.pdf'', Some 2)]) ''rename'' (Some ''gone.pdf'') (idle [1])))
     = [PdfsUpdated [\<lparr>name = ''a.pdf'', path = ''pdfs/a.pdf'', modified = 2\<rparr>], PdfChanged ''gone.pdf'']"
proof -
  let ?w = "pdfs_world [(''a.pdf'', Some 2)]"
  have 1: "endsWith ''gone.pdf'' ''.pdf''" by (simp add: endsWith_def)
  have 2: "distinct (clients (idle [1]))" by (simp add: idle_def)
  have 3: "1 \<in> set (clients (idle [1]))" by (simp add: idle_def)
  have 4: "''gone.pdf'' \<notin> set (map name (listPdfs ?w))" by (simp add: listPdfs_one_file)
  from pdf_changed_name_unchecked[OF 1 2 3 4, of "''rename''"] 4
  show ?thesis unfolding listPdfs_one_file by simp
qed

section \<open>File access gateway: the properties\<close>

text \<open>
  The handler's answer goes by the name \<open>nm\<close> that its own \<open>decodeURIComponent\<close> makes of
  the parameter: the answer is 400 exactly when \<open>nm\<close> does not end with \<open>.pdf\<close>, or contains
  \<open>/\<close>, or contains \<open>..\<close>; it is 404 exactly when \<open>nm\<close> passes these tests and no file exists
  at the root joined with \<open>nm\<close>; and it is 200 with the file's bytes and the content type
  \<open>application/pdf\<close> exactly when \<open>nm\<close> passes and the file exists with these bytes.
\<close>

lemma api_pdf_name_outcomes:
  assumes "decodeURIComponent w param = Some nm"
  shows "(fst (api_pdf_name w param s)
            = Inr \<lparr>status = 400, body = Text ''Invalid file'', headers = []\<rparr>
          \<longleftrightarrow> \<not> suffix ''.pdf'' nm \<or> CHR ''/'' \<in> set nm \<or> sublist ''..'' nm)
       \<and> (fst (api_pdf_name w param s)
            = Inr \<lparr>status = 404, body = Text ''Not found'', headers = []\<rparr>
          \<longleftrightarrow> suffix ''.pdf'' nm \<and> CHR ''/'' \<notin> set nm \<and> \<not> sublist ''..'' nm
              \<and> file_bytes w (join [PDF_DIR w, nm]) = None)
       \<and> (\<forall>bytes. fst (api_pdf_name w param s)
            = Inr \<lparr>status = 200, body = FileBody bytes,
                   headers = [(''Content-Type'', ''application/pdf'')]\<rparr>
          \<longleftrightarrow> suffix ''.pdf'' nm \<and> CHR ''/'' \<notin> set nm \<and> \<not> sublist ''..'' nm
              \<and> file_bytes w (join [PDF_DIR w, nm]) = Some bytes)"
proof (cases "valid_name nm")
  case True
  then have v: "suffix ''.pdf'' nm \<and> CHR ''/'' \<notin> set nm \<and> \<not> sublist ''..'' nm"
    by (simp add: valid_name_iff)
  from True have t: "\<not> (\<not> endsWith nm ''.pdf'' \<or> includes_str nm ''/'' \<or> includes_str nm ''..'')"
    by (simp add: valid_name_def)
  show ?thesis
    using v t assms by (cases "file_bytes w (join [PDF_DIR w, nm])") (simp_all add: api_pdf_name_def Let_def)
next
  case False
  then have v: "\<not> (suffix ''.pdf'' nm \<and> CHR ''/'' \<notin> set nm \<and> \<not> sublist ''..'' nm)"
    by (simp add: valid_name_iff)
  from False have t: "\<not> endsWith nm ''.pdf'' \<or> includes_str nm ''/'' \<or> includes_str nm ''..''"
    by (simp add: valid_name_def)
  have "fst (api_pdf_name w param s) = Inr \<lparr>status = 400, body = Text ''Invalid file'', headers = []\<rparr>"
    using t assms by (simp add: api_pdf_name_def)
  then show ?thesis using v by auto
qed

text \<open>
  A requested name without \<open>%\<close> is left as it is by the handler's decoding, so for such a
  name the answer goes by the requested name itself.
\<close>

lemma api_pdf_name_without_percent:
  assumes "decodeURIComponent w = decodeURIComponent_utf8" and "CHR ''%'' \<notin> set param"
  shows "(fst (api_pdf_name w param s)
            = Inr \<lparr>status = 400, body = Text ''Invalid file'', headers = []\<rparr>
          \<longleftrightarrow> \<not> suffix ''.pdf'' param \<or> CHR ''/'' \<in> set param \<or> sublist ''..'' param)
       \<and> (fst (api_pdf_name w param s)
            = Inr \<lparr>status = 404, body = Text ''Not found'', headers = []\<rparr>
          \<longleftrightarrow> suffix ''.pdf'' param \<and> CHR ''/'' \<notin> set param \<and> \<not> sublist ''..'' param
              \<and> file_bytes w (join [PDF_DIR w, param]) = None)
       \<and> (\<forall>bytes. fst (api_pdf_name w param s)
            = Inr \<lparr>status = 200, body = FileBody bytes,
                   headers = [(''Content-Type'', ''application/pdf'')]\<rparr>
          \<longleftrightarrow> suffix ''.pdf'' param \<and> CHR ''/'' \<notin> set param \<and> \<not> sublist ''..'' param
              \<and> file_bytes w (join [PDF_DIR w, param]) = Some bytes)"
proof -
  have "decodeURIComponent w param = Some param"
    using assms by (simp add: decodeURIComponent_utf8_plain)
  then show ?thesis by (rule api_pdf_name_outcomes)
qed

lemma api_pdf_name_examples:
  "fst (api_pdf_name (pdfs_world [(''report.pdf'', Some 1)]) ''report.pdf'' (idle []))
     = Inr \<lparr>status = 200, body = FileBody [37, 80, 68, 70],
            headers = [(''Content-Type'', ''application/pdf'')]\<rparr>
   \<and> fst (api_pdf_name (pdfs_world [(''report.pdf'', Some 1)]) ''../secret.pdf'' (idle []))
     = Inr \<lparr>status = 400, body = Text ''Invalid file'', headers = []\<rparr>
   \<and> fst (api_pdf_name (pdfs_world [(''report.pdf'', Some 1)]) ''missing.pdf'' (idle []))
     = Inr \<lparr>status = 404, body = Text ''Not found'', headers = []\<rparr>
   \<and> fst (api_pdf_name (pdfs_world [(''report.pdf'', Some 1)]) ''notes.txt'' (idle []))
     = Inr \<lparr>status = 400, body = Text ''Invalid file'', headers = []\<rparr>"
proof -
  let ?w = "pdfs_world [(''report.pdf'', Some 1)]"
  note ev = endsWith_iff_suffix[symmetric] includes_str_iff_sublist[symmetric] endsWith_def
  have a: "suffix ''.pdf'' ''report.pdf'' \<and> CHR ''/'' \<notin> set ''report.pdf''
      \<and> \<not> sublist ''..'' ''report.pdf''
      \<and> file_bytes ?w (join [PDF_DIR ?w, ''report.pdf'']) = Some [37, 80, 68, 70]"
    by (simp add: ev pdfs_world_def path_defs)
  have b: "\<not> suffix ''.pdf'' ''../secret.pdf'' \<or> CHR ''/'' \<in> set ''../secret.pdf''
      \<or> sublist ''..'' ''../secret.pdf''"
    by simp
  have c: "suffix ''.pdf'' ''missing.pdf'' \<and> CHR ''/'' \<notin> set ''missing.pdf''
      \<and> \<not> sublist ''..'' ''missing.pdf''
      \<and> file_bytes ?w (join [PDF_DIR ?w, ''missing.pdf'']) = None"
    by (simp add: ev pdfs_world_def path_defs)
  have d: "\<not> suffix ''.pdf'' ''notes.txt'' \<or> CHR ''/'' \<in> set ''notes.txt''
      \<or> sublist ''..'' ''notes.txt''"
    by (simp add: ev)
  have p: "CHR ''%'' \<notin> set ''report.pdf''" "CHR ''%'' \<notin> set ''../secret.pdf''"
    "CHR ''%'' \<notin> set ''missing.pdf''" "CHR ''%'' \<notin> set ''notes.txt''"
    by simp_all
  note t = api_pdf_name_without_percent[OF decode_pdfs_world, of _ _ "idle []"]
  have "fst (api_pdf_name ?w ''report.pdf'' (idle []))
     = Inr \<lparr>status = 200, body = FileBody [37, 80, 68, 70],
            headers = [(''Content-Type'', ''application/pdf'')]\<rparr>"
    using t[OF p(1), THEN conjunct2, THEN conjunct2, THEN spec, THEN iffD2, OF a] .
  moreover have "fst (api_pdf_name ?w ''../secret.pdf'' (idle []))
     = Inr \<lparr>status = 400, body = Text ''Invalid file'', headers = []\<rparr>"
    using t[OF p(2), THEN conjunct1, THEN iffD2, OF b] .
  moreover have "fst (api_pdf_name ?w ''missing.pdf'' (idle []))
     = Inr \<lparr>status = 404, body = Text ''Not found'', headers = []\<rparr>"
    using t[OF p(3), THEN conjunct2, THEN conjunct1, THEN iffD2, OF c] .
  moreover have "fst (api_pdf_name ?w ''notes.txt'' (idle []))
     = Inr \<lparr>status = 400, body = Text ''Invalid file'', headers = []\<rparr>"
    using t[OF p(4), THEN conjunct1, THEN iffD2, OF d] .
  ultimately show ?thesis by simp
qed

text \<open>
  C4. The requested name reaches the handler percent-decoded by the transport already, and
  the handler decodes it once more before its tests. For a requested name with a \<open>%\<close> the
  answer is therefore not the one the name calls for. The directory holds \<open>100%.pdf\<close>,
  \<open>a%20b.pdf\<close> and \<open>%2E%2E.pdf\<close>; each of these names ends with \<open>.pdf\<close>, has no \<open>/\<close> and no
  \<open>..\<close>, and its file exists, so each request should be answered 200 with the file's
  bytes. The handler throws \<open>URIError\<close> for the first, answers 404 for the second (it looks
  for \<open>a b.pdf\<close>) and 400 for the third (it tests \<open>...pdf\<close>).
\<close>

theorem api_pdf_name_decodes_twice:
  "valid_name ''100%.pdf''
   \<and> file_bytes percent_world (join [PDF_DIR percent_world, ''100%.pdf'']) = Some [37, 80, 68, 70]
   \<and> fst (api_pdf_name percent_world ''100%.pdf'' (idle [])) = Inl URIError
   \<and> valid_name ''a%20b.pdf''
   \<and> file_bytes percent_world (join [PDF_DIR percent_world, ''a%20b.pdf'']) = Some [37, 80, 68, 70]
   \<and> fst (api_pdf_name percent_world ''a%20b.pdf'' (idle []))
       = Inr \<lparr>status = 404, body = Text ''Not found'', headers = []\<rparr>
   \<and> valid_name ''%2E%2E.pdf''
   \<and> file_bytes percent_world (join [PDF_DIR percent_world, ''%2E%2E.pdf'']) = Some [37, 80, 68, 70]
   \<and> fst (api_pdf_name percent_world ''%2E%2E.pdf'' (idle []))
       = Inr \<lparr>status = 400, body = Text ''Invalid file'', headers = []\<rparr>"
proof -
  have d: "decodeURIComponent_utf8 ''100%.pdf'' = None"
    "decodeURIComponent_utf8 ''a%20b.pdf'' = Some ''a b.pdf''"
    "decodeURIComponent_utf8 ''%2E%2E.pdf'' = Some ''...pdf''"
    by code_simp+
  have v: "valid_name ''100%.pdf''" "valid_name ''a%20b.pdf''" "valid_name ''%2E%2E.pdf''"
    by (simp_all add: valid_name_def endsWith_def)
  have f: "file_bytes percent_world (join [PDF_DIR percent_world, ''100%.pdf'']) = Some [37, 80, 68, 70]"
    "file_bytes percent_world (join [PDF_DIR percent_world, ''a%20b.pdf'']) = Some [37, 80, 68, 70]"
    "file_bytes percent_world (join [PDF_DIR percent_world, ''%2E%2E.pdf'']) = Some [37, 80, 68, 70]"
    by (simp_all add: percent_world_def pdfs_world_def path_defs)
  have r1: "fst (api_pdf_name percent_world ''100%.pdf'' (idle [])) = Inl URIError"
    by (simp add: api_pdf_name_def percent_world_def decode_pdfs_world d)
  have r2: "fst (api_pdf_name percent_world ''a%20b.pdf'' (idle []))
       = Inr \<lparr>status = 404, body = Text ''Not found'', headers = []\<rparr>"
    by (simp add: api_pdf_name_def percent_world_def decode_pdfs_world d endsWith_def)
       (simp add: pdfs_world_def path_defs)
  have r3: "fst (api_pdf_name percent_world ''%2E%2E.pdf'' (idle []))
       = Inr \<lparr>status = 400, body = Text ''Invalid file'', headers = []\<rparr>"
    by (simp add: api_pdf_name_def percent_world_def decode_pdfs_world d endsWith_def)
  from v f r1 r2 r3 show ?thesis by simp
qed

theorem api_pdf_name_decodes_twice_witness:
  "fst (api_pdf_name percent_world ''100%.pdf'' (idle []))
     \<noteq> Inr \<lparr>status = 200, body = FileBody [37, 80, 68, 70],
            headers = [(''Content-Type'', ''application/pdf'')]\<rparr>
   \<and> fst (api_pdf_name percent_world ''a%20b.pdf'' (idle []))
     \<noteq> Inr \<lparr>status = 200, body = FileBody [37, 80, 68, 70],
            headers = [(''Content-Type'', ''application/pdf'')]\<rparr>
   \<and> fst (api_pdf_name percent_world ''%2E%2E.pdf'' (idle []))
     \<noteq> Inr \<lparr>status = 200, body = FileBody [37, 80, 68, 70],
            headers = [(''Content-Type'', ''application/pdf'')]\<rparr>"
  using api_pdf_name_decodes_twice by simp

text \<open>
  C5. For a name that passes the gateway's tests, the path obtained by joining any root
  with the name lies inside that root: it is the root's own path followed by the name as
  one more segment.
\<close>

theorem valid_name_stays_inside:
  assumes "valid_name nm"
  shows "inside dir (join [dir, nm]) \<and> path_segments (join [dir, nm]) = path_segments dir @ [nm]"
proof -
  note p = valid_name_plain[OF assms]
  have j: "join [dir, nm] =
     (if isAbsolute dir then ''/'' else []) @ joinWith ''/'' (path_segments dir @ [nm])"
    using p by (rule join_child)
  have n: "normalized (\<not> isAbsolute dir) (path_segments dir @ [nm])"
    using p by (rule normalized_child)
  have abs: "isAbsolute (join [dir, nm]) = isAbsolute dir"
    unfolding j using n by (rule path_segments_rendered(1)) simp
  have segs: "path_segments (join [dir, nm]) = path_segments dir @ [nm]"
    unfolding j using n by (rule path_segments_rendered(2)) simp
  show ?thesis
    using p(3) by (simp add: inside_def abs segs strict_prefix_def)
qed

theorem valid_name_stays_inside_witness:
  "valid_name ''report.pdf''
   \<and> inside ''./pdfs'' (join [''./pdfs'', ''report.pdf''])
   \<and> path_segments (join [''./pdfs'', ''report.pdf'']) = [''pdfs'', ''report.pdf'']
   \<and> inside ''/srv/../docs/'' (join [''/srv/../docs/'', ''report.pdf''])
   \<and> path_segments (join [''/srv/../docs/'', ''report.pdf'']) = [''docs'', ''report.pdf'']"
proof -
  have v: "valid_name ''report.pdf''" by (simp add: valid_name_def endsWith_def)
  have 1: "path_segments ''./pdfs'' = [''pdfs'']"
    by (simp add: path_segments_def normalizeSegments_def normalizeSegment_def isAbsolute_def)
  have 2: "path_segments ''/srv/../docs/'' = [''docs'']"
    by (simp add: path_segments_def normalizeSegments_def normalizeSegment_def isAbsolute_def)
  from valid_name_stays_inside[OF v, of "''./pdfs''"]
       valid_name_stays_inside[OF v, of "''/srv/../docs/''"] v
  show ?thesis unfolding 1 2 by simp
qed

text \<open>
  The tests are needed: \<open>../secret.pdf\<close> is refused, and joined with the root it would
  leave the root. A name whose separator is still percent-encoded is refused as well,
  for its \<open>..\<close>.
\<close>

lemma traversal_leaves_root:
  "\<not> valid_name ''../secret.pdf'' \<and> \<not> inside ''./pdfs'' (join [''./pdfs'', ''../secret.pdf''])
   \<and> \<not> valid_name ''..%2Fsecret.pdf''"
  by (simp add: valid_name_def endsWith_def inside_def path_segments_def path_defs)

end
